theory Spec2Isabelle
  imports Main "HOL-Library.Sublist" "HOL-Library.AList" "HOL-Library.List_Lexorder"
    "HOL-Library.Char_ord"
begin

section \<open>JavaScript values and string primitives\<close>

text \<open>
  The values that reach \<^verbatim>\<open>src/type-is.ts\<close>. A string is a list of 8-bit code units (the
  header values Node.js delivers are Latin-1). \<open>JObject\<close> is a plain object without
  properties of its own (\<^verbatim>\<open>{}\<close>), \<open>JFunction\<close> a plain function; the code never looks
  at the payload of a number.
\<close>

datatype jsval =
    JUndefined
  | JNull
  | JBool bool
  | JNumber int
  | JString string
  | JArray "jsval list"
  | JObject
  | JFunction

text \<open>The exception every throwing operation of this code raises.\<close>

datatype exn = TypeError

text \<open>\<^verbatim>\<open>!v\<close>: the values that coerce to false.\<close>

fun falsy :: "jsval \<Rightarrow> bool" where
  "falsy JUndefined = True"
| "falsy JNull = True"
| "falsy (JBool b) = (\<not> b)"
| "falsy (JNumber n) = (n = 0)"
| "falsy (JString s) = (s = [])"
| "falsy (JArray xs) = False"
| "falsy JObject = False"
| "falsy JFunction = False"

text \<open>\<^verbatim>\<open>s.split(c)\<close> for a one-character separator: never empty, \<^verbatim>\<open>''.split('/')\<close> is \<^verbatim>\<open>['']\<close>.\<close>

fun split :: "char \<Rightarrow> string \<Rightarrow> string list" where
  "split c [] = [[]]"
| "split c (x # xs) =
     (if x = c then [] # split c xs
      else (case split c xs of [] \<Rightarrow> [[x]] | p # ps \<Rightarrow> (x # p) # ps))"

text \<open>\<^verbatim>\<open>s.indexOf(c)\<close>: the first position of \<open>c\<close>, or \<open>-1\<close>.\<close>

fun indexOf :: "string \<Rightarrow> char \<Rightarrow> int" where
  "indexOf [] c = - 1"
| "indexOf (x # xs) c =
     (if x = c then 0 else (let i = indexOf xs c in if i = - 1 then - 1 else i + 1))"

text \<open>
  \<^verbatim>\<open>s.slice(start, end)\<close> and \<^verbatim>\<open>s.slice(start)\<close>: a negative index counts from the end,
  and both are clamped to the string.
\<close>

definition relIndex :: "string \<Rightarrow> int \<Rightarrow> nat" where
  "relIndex s i =
     (let len = int (length s) in nat (if i < 0 then max (len + i) 0 else min i len))"

definition slice :: "string \<Rightarrow> int \<Rightarrow> int \<Rightarrow> string" where
  "slice s start end = take (relIndex s end - relIndex s start) (drop (relIndex s start) s)"

definition sliceFrom :: "string \<Rightarrow> int \<Rightarrow> string" where
  "sliceFrom s start = drop (relIndex s start) s"

text \<open>\<^verbatim>\<open>s[0] === c\<close>: false on the empty string, whose \<^verbatim>\<open>s[0]\<close> is \<^verbatim>\<open>undefined\<close>.\<close>

definition firstIs :: "string \<Rightarrow> char \<Rightarrow> bool" where
  "firstIs s c = (case s of [] \<Rightarrow> False | x # _ \<Rightarrow> x = c)"

section \<open>The wildcard matcher\<close>

text \<open>
  \<^verbatim>\<open>mimeMatch(expected: string | false, actual: string)\<close>; \<open>None\<close> is \<^verbatim>\<open>false\<close>.
\<close>

definition mimeMatch :: "string option \<Rightarrow> string \<Rightarrow> bool" where
  "mimeMatch expected actual =
     (case expected of
        None \<Rightarrow> False
      | Some e \<Rightarrow>
          (let actualParts = split (CHR ''/'') actual;
               expectedParts = split (CHR ''/'') e
           in if length actualParts \<noteq> 2 \<or> length expectedParts \<noteq> 2 then False
              else if expectedParts ! 0 \<noteq> ''*'' \<and> expectedParts ! 0 \<noteq> actualParts ! 0
                then False
              else if slice (expectedParts ! 1) 0 2 = ''*+''
                then int (length (expectedParts ! 1)) \<le> int (length (actualParts ! 1)) + 1 \<and>
                     sliceFrom (expectedParts ! 1) 1 =
                       sliceFrom (actualParts ! 1) (1 - int (length (expectedParts ! 1)))
              else if expectedParts ! 1 \<noteq> ''*'' \<and> expectedParts ! 1 \<noteq> actualParts ! 1
                then False
              else True))"

section \<open>The imported packages\<close>

text \<open>
  \<^verbatim>\<open>src/type-is.ts\<close> imports \<^verbatim>\<open>content-type\<close> (parse and format) and \<^verbatim>\<open>mime-types\<close>
  (lookup). The functions of the repository take them as a record of functions, so that
  what is proved of \<open>typeis_is\<close>, \<open>typeIs\<close> and \<open>normalize_pattern\<close> for an arbitrary
  \<open>D\<close> holds whatever the packages compute. \<^verbatim>\<open>contentType.parse\<close> and
  \<^verbatim>\<open>contentType.format\<close> throw on bad input (\<open>Inl\<close>); \<^verbatim>\<open>mime.lookup\<close> returns a
  string or \<^verbatim>\<open>false\<close> (\<open>None\<close>).
\<close>

record ContentType =
  mediaType :: string
  parameters :: "(string \<times> string) list"

record deps =
  contentType_parse :: "jsval \<Rightarrow> exn + ContentType"
  contentType_format :: "ContentType \<Rightarrow> exn + string"
  mime_lookup :: "string \<Rightarrow> string option"

section \<open>Normalising the actual media type\<close>

text \<open>
  \<^verbatim>\<open>normalizeType\<close>: parse, \<^verbatim>\<open>type.parameters = {}\<close>, format. An exception of either
  call propagates.
\<close>

definition normalizeType :: "deps \<Rightarrow> jsval \<Rightarrow> exn + string" where
  "normalizeType D value =
     (case contentType_parse D value of
        Inl err \<Rightarrow> Inl err
      | Inr type \<Rightarrow> contentType_format D (type\<lparr>parameters := []\<rparr>))"

text \<open>\<^verbatim>\<open>tryNormalizeType\<close>: \<^verbatim>\<open>null\<close> (\<open>None\<close>) for a falsy value and for every exception.\<close>

definition tryNormalizeType :: "deps \<Rightarrow> jsval \<Rightarrow> string option" where
  "tryNormalizeType D value =
     (if falsy value then None
      else (case normalizeType D value of Inl err \<Rightarrow> None | Inr s \<Rightarrow> Some s))"

section \<open>Normalising a pattern\<close>

text \<open>
  \<^verbatim>\<open>normalize(type)\<close>: \<^verbatim>\<open>false\<close> (\<open>None\<close>) for every value that is not a string, the two
  aliases, the \<^verbatim>\<open>+suffix\<close> expansion, then the extension lookup for a string without
  \<^verbatim>\<open>/\<close>, and the string itself otherwise.
\<close>

definition normalize_pattern :: "deps \<Rightarrow> jsval \<Rightarrow> string option" where
  "normalize_pattern D type =
     (case type of
        JString s \<Rightarrow>
          if s = ''urlencoded'' then Some ''application/x-www-form-urlencoded''
          else if s = ''multipart'' then Some ''multipart/*''
          else if firstIs s (CHR ''+'') then Some (''*/*'' @ s)
          else if indexOf s (CHR ''/'') = - 1 then mime_lookup D s
          else Some s
      | _ \<Rightarrow> None)"

section \<open>The type decision\<close>

text \<open>
  The arguments after the first one are \<open>rest\<close> (\<^verbatim>\<open>arguments[1..]\<close>), and \<^verbatim>\<open>acceptable\<close>
  is the first of them. "Support flattened arguments": when \<^verbatim>\<open>acceptable\<close> is not an
  array, the array is built from all of \<open>rest\<close>.
\<close>

definition flattened :: "jsval list \<Rightarrow> jsval list" where
  "flattened rest = (case rest of JArray xs # _ \<Rightarrow> xs | _ \<Rightarrow> rest)"

text \<open>
  The expression \<^verbatim>\<open>type[0] === '+' || type.indexOf('*') !== -1 ? actual : type\<close> on
  the entry that matched. Reading a property of \<^verbatim>\<open>undefined\<close> or \<^verbatim>\<open>null\<close> throws; a
  boolean, a number, a plain object and a function have no element \<^verbatim>\<open>0\<close> and no
  \<^verbatim>\<open>indexOf\<close>, so the call throws; an array has both.
\<close>

definition matched :: "string \<Rightarrow> jsval \<Rightarrow> exn + jsval" where
  "matched actual type =
     (case type of
        JString s \<Rightarrow>
          Inr (if firstIs s (CHR ''+'') \<or> indexOf s (CHR ''*'') \<noteq> - 1
               then JString actual else type)
      | JArray xs \<Rightarrow>
          Inr (if (case xs of [] \<Rightarrow> False | x # _ \<Rightarrow> x = JString ''+'') \<or> JString ''*'' \<in> set xs
               then JString actual else type)
      | _ \<Rightarrow> Inl TypeError)"

text \<open>The loop over \<^verbatim>\<open>acceptable\<close>, and \<^verbatim>\<open>return false\<close> after it.\<close>

fun matchFirst :: "deps \<Rightarrow> string \<Rightarrow> jsval list \<Rightarrow> exn + jsval" where
  "matchFirst D actual [] = Inr (JBool False)"
| "matchFirst D actual (type # later) =
     (if mimeMatch (normalize_pattern D type) actual then matched actual type
      else matchFirst D actual later)"

text \<open>
  \<^verbatim>\<open>is(actual_, ...)\<close>. \<^verbatim>\<open>!actual\<close> holds for \<^verbatim>\<open>null\<close> and for the empty string.
\<close>

definition typeis_is :: "deps \<Rightarrow> jsval \<Rightarrow> jsval list \<Rightarrow> exn + jsval" where
  "typeis_is D actual' rest =
     (case tryNormalizeType D actual' of
        None \<Rightarrow> Inr (JBool False)
      | Some actual \<Rightarrow>
          if actual = [] then Inr (JBool False)
          else (let acceptable = flattened rest
                in if acceptable = [] then Inr (JString actual)
                   else matchFirst D actual acceptable))"

section \<open>The body check and the header-level decision\<close>

text \<open>
  A header map gives a string or nothing (\<^verbatim>\<open>undefined\<close>) for a lower-case name.
\<close>

type_synonym headers = "string \<rightharpoonup> string"

text \<open>
  \<^verbatim>\<open>isNaN(x)\<close> for \<open>x\<close> a string or \<^verbatim>\<open>undefined\<close>: \<open>x\<close> is converted to a number, and
  \<^verbatim>\<open>undefined\<close> converts to \<^verbatim>\<open>NaN\<close>. A string converts to \<^verbatim>\<open>NaN\<close> unless, with white
  space stripped at both ends, it is empty (the number 0) or a numeric literal of
  ECMAScript's \<^verbatim>\<open>StringNumericLiteral\<close> grammar: a decimal literal with an optional
  sign, fraction and exponent, \<^verbatim>\<open>Infinity\<close> with an optional sign, or an unsigned
  hexadecimal, octal or binary integer.
\<close>

definition isStrWhiteSpaceChar :: "char \<Rightarrow> bool" where
  "isStrWhiteSpaceChar c = ((of_char c :: nat) \<in> {9, 10, 11, 12, 13, 32, 160})"

definition isDecimalDigit :: "char \<Rightarrow> bool" where
  "isDecimalDigit c = (48 \<le> (of_char c :: nat) \<and> (of_char c :: nat) \<le> 57)"

definition isHexDigit :: "char \<Rightarrow> bool" where
  "isHexDigit c = (isDecimalDigit c \<or> c \<in> set ''abcdefABCDEF'')"

definition isDecimalDigits :: "string \<Rightarrow> bool" where
  "isDecimalDigits s = (s \<noteq> [] \<and> list_all isDecimalDigit s)"

definition isSignedInteger :: "string \<Rightarrow> bool" where
  "isSignedInteger s =
     (case s of
        [] \<Rightarrow> False
      | c # r \<Rightarrow> if c = CHR ''+'' \<or> c = CHR ''-'' then isDecimalDigits r else isDecimalDigits s)"

definition isExponentPart :: "string \<Rightarrow> bool" where
  "isExponentPart s =
     (case s of [] \<Rightarrow> False | c # r \<Rightarrow> (c = CHR ''e'' \<or> c = CHR ''E'') \<and> isSignedInteger r)"

definition isStrUnsignedDecimalLiteral :: "string \<Rightarrow> bool" where
  "isStrUnsignedDecimalLiteral s =
     (s = ''Infinity'' \<or>
      (let ds = takeWhile isDecimalDigit s; r = dropWhile isDecimalDigit s
       in case r of
            [] \<Rightarrow> ds \<noteq> []
          | c # r1 \<Rightarrow>
              if c = CHR ''.''
              then (let fs = takeWhile isDecimalDigit r1; r2 = dropWhile isDecimalDigit r1
                    in (ds \<noteq> [] \<or> fs \<noteq> []) \<and> (r2 = [] \<or> isExponentPart r2))
              else ds \<noteq> [] \<and> isExponentPart r))"

definition isStrDecimalLiteral :: "string \<Rightarrow> bool" where
  "isStrDecimalLiteral s =
     (case s of
        [] \<Rightarrow> False
      | c # r \<Rightarrow>
          if c = CHR ''+'' \<or> c = CHR ''-'' then isStrUnsignedDecimalLiteral r
          else isStrUnsignedDecimalLiteral s)"

definition isNonDecimalIntegerLiteral :: "string \<Rightarrow> bool" where
  "isNonDecimalIntegerLiteral s =
     (case s of
        z # p # ds \<Rightarrow>
          z = CHR ''0'' \<and> ds \<noteq> [] \<and>
          (if p = CHR ''x'' \<or> p = CHR ''X'' then list_all isHexDigit ds
           else if p = CHR ''o'' \<or> p = CHR ''O'' then list_all (\<lambda>d. d \<in> set ''01234567'') ds
           else if p = CHR ''b'' \<or> p = CHR ''B'' then list_all (\<lambda>d. d \<in> set ''01'') ds
           else False)
      | _ \<Rightarrow> False)"

definition trimWhiteSpace :: "string \<Rightarrow> string" where
  "trimWhiteSpace s =
     rev (dropWhile isStrWhiteSpaceChar (rev (dropWhile isStrWhiteSpaceChar s)))"

definition isStringNumericLiteral :: "string \<Rightarrow> bool" where
  "isStringNumericLiteral s =
     (let t = trimWhiteSpace s
      in t = [] \<or> isStrDecimalLiteral t \<or> isNonDecimalIntegerLiteral t)"

definition isNaN :: "string option \<Rightarrow> bool" where
  "isNaN x = (case x of None \<Rightarrow> True | Some s \<Rightarrow> \<not> isStringNumericLiteral s)"

definition hasBody :: "headers \<Rightarrow> bool" where
  "hasBody headers =
     (headers ''transfer-encoding'' \<noteq> None \<or> \<not> isNaN (headers ''content-length''))"

text \<open>\<^verbatim>\<open>headers['content-type']\<close> as a value.\<close>

definition headerValue :: "headers \<Rightarrow> string \<Rightarrow> jsval" where
  "headerValue headers name = (case headers name of None \<Rightarrow> JUndefined | Some s \<Rightarrow> JString s)"

text \<open>
  \<^verbatim>\<open>typeIs(headers, ...)\<close>: \<^verbatim>\<open>null\<close> without a body; otherwise the arguments are
  flattened and \<^verbatim>\<open>is(value, acceptable)\<close> is called with the array.
\<close>

definition typeIs :: "deps \<Rightarrow> headers \<Rightarrow> jsval list \<Rightarrow> exn + jsval" where
  "typeIs D headers rest =
     (if \<not> hasBody headers then Inr JNull
      else (let acceptable = flattened rest;
                value = headerValue headers ''content-type''
            in typeis_is D value [JArray acceptable]))"

section \<open>A model of the imported packages\<close>

text \<open>
  Modelled from the spec: the packages \<^verbatim>\<open>content-type\<close> and \<^verbatim>\<open>mime-types\<close>, which
  \<^verbatim>\<open>src/type-is.ts\<close> imports and whose sources are not in the repository. Section 4.1
  of the specification describes the parser (the grammar
  \<^verbatim>\<open>type "/" subtype *( OWS ";" OWS parameter )\<close>, tokens of letters, digits and a
  restricted punctuation, parameters checked and discarded, the result in lower case),
  section 4.2 the lookup of an extension in the registry of media types. Where the
  specification leaves a detail open (white space, quoted parameter values, the
  extension of a path) the model follows the regular expressions and the control flow
  of \<^verbatim>\<open>content-type\<close> 1.0.5 and \<^verbatim>\<open>mime-types\<close> 2.1.35, the versions that
  \<^verbatim>\<open>package.json\<close> asks for.
\<close>

text \<open>
  \<^verbatim>\<open>s.trim()\<close> strips the white space and line terminators that the conversion to a
  number strips; \<^verbatim>\<open>s.toLowerCase()\<close> on 8-bit code units maps \<^verbatim>\<open>A-Z\<close> and the
  Latin-1 capitals \<^verbatim>\<open>0xC0-0xDE\<close> (but \<^verbatim>\<open>0xD7\<close>) to the unit 32 above.
\<close>

definition trim :: "string \<Rightarrow> string" where
  "trim s = trimWhiteSpace s"

definition lowerChar :: "char \<Rightarrow> char" where
  "lowerChar c =
     (let n = (of_char c :: nat)
      in if (65 \<le> n \<and> n \<le> 90) \<or> (192 \<le> n \<and> n \<le> 222 \<and> n \<noteq> 215)
         then char_of (n + 32) else c)"

definition toLowerCase :: "string \<Rightarrow> string" where
  "toLowerCase s = map lowerChar s"

text \<open>
  The character class of \<^verbatim>\<open>TOKEN_REGEXP\<close>: letters, digits and
  \<^verbatim>\<open>! # $ % & ' * + . ^ _ ` | ~ -\<close>. \<^verbatim>\<open>TYPE_REGEXP\<close> is two non-empty tokens around one
  \<^verbatim>\<open>/\<close>, and \<^verbatim>\<open>TEXT_REGEXP\<close> a non-empty string of \<^verbatim>\<open>0x0B\<close>, \<^verbatim>\<open>0x20-0x7E\<close> and
  \<^verbatim>\<open>0x80-0xFF\<close>.
\<close>

definition tokenChar :: "char \<Rightarrow> bool" where
  "tokenChar c =
     (let n = (of_char c :: nat)
      in (48 \<le> n \<and> n \<le> 57) \<or> (65 \<le> n \<and> n \<le> 90) \<or> (97 \<le> n \<and> n \<le> 122) \<or>
         n \<in> {33, 35, 36, 37, 38, 39, 42, 43, 45, 46, 94, 95, 96, 124, 126})"

definition TOKEN_REGEXP :: "string \<Rightarrow> bool" where
  "TOKEN_REGEXP s = (s \<noteq> [] \<and> list_all tokenChar s)"

definition TYPE_REGEXP :: "string \<Rightarrow> bool" where
  "TYPE_REGEXP s =
     (let parts = split (CHR ''/'') s
      in length parts = 2 \<and> TOKEN_REGEXP (parts ! 0) \<and> TOKEN_REGEXP (parts ! 1))"

definition textChar :: "char \<Rightarrow> bool" where
  "textChar c =
     (let n = (of_char c :: nat) in n = 11 \<or> (32 \<le> n \<and> n \<le> 126) \<or> 128 \<le> n)"

definition TEXT_REGEXP :: "string \<Rightarrow> bool" where
  "TEXT_REGEXP s = (s \<noteq> [] \<and> list_all textChar s)"

text \<open>
  The quoted value of \<^verbatim>\<open>PARAM_REGEXP\<close>, read after its opening quote: characters
  other than quote and backslash out of \<^verbatim>\<open>0x0B\<close>, \<^verbatim>\<open>0x20-0x7E\<close>, \<^verbatim>\<open>0x80-0xFF\<close>, and
  backslash pairs, up to the closing quote. The result is the body and what follows
  the closing quote.
\<close>

definition qdtextChar :: "char \<Rightarrow> bool" where
  "qdtextChar c = (textChar c \<and> c \<noteq> CHR 0x22 \<and> c \<noteq> CHR 0x5C)"

definition quotedPairChar :: "char \<Rightarrow> bool" where
  "quotedPairChar c = (let n = (of_char c :: nat) in n = 11 \<or> 32 \<le> n)"

fun quotedBody :: "string \<Rightarrow> (string \<times> string) option" where
  "quotedBody [] = None"
| "quotedBody [c] = (if c = CHR 0x22 then Some ([], []) else None)"
| "quotedBody (c # d # cs) =
     (if c = CHR 0x22 then Some ([], d # cs)
      else if c = CHR 0x5C then
        (if quotedPairChar d
         then (case quotedBody cs of None \<Rightarrow> None | Some (b, r) \<Rightarrow> Some (c # d # b, r))
         else None)
      else if qdtextChar c then
        (case quotedBody (d # cs) of None \<Rightarrow> None | Some (b, r) \<Rightarrow> Some (c # b, r))
      else None)"

text \<open>\<^verbatim>\<open>value.replace(QESC_REGEXP, '$1')\<close>: each backslash pair becomes its character.\<close>

fun unescape :: "string \<Rightarrow> string" where
  "unescape [] = []"
| "unescape [c] = [c]"
| "unescape (c # d # cs) =
     (if c = CHR 0x5C \<and> quotedPairChar d then d # unescape cs else c # unescape (d # cs))"

definition spaces :: "string \<Rightarrow> string" where
  "spaces s = dropWhile (\<lambda>c. c = CHR '' '') s"

text \<open>
  One match of \<^verbatim>\<open>PARAM_REGEXP\<close> at the start of \<open>s\<close>:
  \<^verbatim>\<open>; *(token) *= *("quoted"|token) *\<close>. The result is the name, the value with its
  quotes and escapes removed, and the text after the match.
\<close>

definition matchParam :: "string \<Rightarrow> (string \<times> string \<times> string) option" where
  "matchParam s =
     (case s of
        [] \<Rightarrow> None
      | semi # s1 \<Rightarrow>
          if semi \<noteq> CHR '';'' then None
          else (let s2 = spaces s1;
                    key = takeWhile tokenChar s2;
                    s3 = spaces (dropWhile tokenChar s2)
                in if key = [] then None
                   else (case s3 of
                      [] \<Rightarrow> None
                    | eq # s4 \<Rightarrow>
                        if eq \<noteq> CHR ''='' then None
                        else (let s5 = spaces s4
                              in case s5 of
                                   [] \<Rightarrow> None
                                 | q # s6 \<Rightarrow>
                                     if q = CHR 0x22
                                     then (case quotedBody s6 of
                                             None \<Rightarrow> None
                                           | Some (body, s7) \<Rightarrow>
                                               Some (key, unescape body, spaces s7))
                                     else (let val = takeWhile tokenChar s5
                                           in if val = [] then None
                                              else Some (key, val,
                                                     spaces (dropWhile tokenChar s5)))))))"

text \<open>
  The parameter loop of \<^verbatim>\<open>parse\<close>. A match must start where the last one ended,
  and the matches must reach the end of the header; otherwise
  \<^verbatim>\<open>invalid parameter format\<close> is thrown. \<^verbatim>\<open>obj.parameters[key] = value\<close> keeps one
  value for a name.
\<close>

function parseParams :: "string \<Rightarrow> (string \<times> string) list \<Rightarrow> exn + (string \<times> string) list" where
  "parseParams s ps =
     (if s = [] then Inr ps
      else (case matchParam s of
              None \<Rightarrow> Inl TypeError
            | Some (key, val, s') \<Rightarrow> parseParams s' (AList.update (toLowerCase key) val ps)))"
  by pat_completeness auto
termination
proof (relation "measure (\<lambda>(s, ps). length s)")
  show "wf (measure (\<lambda>(s, ps). length s))" by simp
next
  fix s :: string and ps :: "(string \<times> string) list" and m key r val s'
  assume m: "matchParam s = Some m" "(key, r) = m" "(val, s') = r"
  have sp: "length (spaces t) \<le> length t" for t
    by (simp add: spaces_def length_dropWhile_le)
  have sp_cons: "spaces t = c # u \<Longrightarrow> length u < length t" for t c u
    using sp [of t] by simp
  have tok: "length (dropWhile tokenChar t) \<le> length t" for t
    by (simp add: length_dropWhile_le)
  have name: "spaces (dropWhile tokenChar (spaces t)) = c # u \<Longrightarrow> length u < length t"
    for t c u
    using sp_cons [of "dropWhile tokenChar (spaces t)" c u] tok [of "spaces t"] sp [of t]
    by simp
  have quoted: "quotedBody t = Some (b, u) \<Longrightarrow> length u < length t" for t b u
    by (induction t arbitrary: b u rule: quotedBody.induct)
       (fastforce split: if_splits option.splits)+
  from m have "matchParam s = Some (key, val, s')" by simp
  then have "length s' < length s"
    unfolding matchParam_def Let_def
  proof (auto split: list.splits if_splits option.splits dest!: quoted)
    fix x y z :: string and a b :: string
    assume "spaces (dropWhile tokenChar (spaces x)) = CHR ''='' # y"
      and "spaces y = CHR 0x22 # z" and "length b < length z"
    then show "length (spaces b) < Suc (length x)"
      using name [of x "CHR ''=''" y] sp_cons [of y "CHR 0x22" z] sp [of b] by simp
  next
    fix x y z :: string and q
    assume "spaces (dropWhile tokenChar (spaces x)) = CHR ''='' # y"
      and "spaces y = q # z"
    then show "length (spaces (dropWhile tokenChar z)) < Suc (length x)"
      using name [of x "CHR ''=''" y] sp_cons [of y q z] sp [of "dropWhile tokenChar z"]
        tok [of z]
      by simp
  qed
  then show "((s', AList.update (toLowerCase key) val ps), (s, ps)) \<in> measure (\<lambda>(s, ps). length s)"
    by simp
qed

declare parseParams.simps [simp del]

text \<open>
  Modelled from the spec: \<^verbatim>\<open>contentType.parse(string)\<close>. A falsy argument and an argument that is not a string
  throw (no content-type header is found on a plain object, an array or a function).
  The media type is the text before the first \<^verbatim>\<open>;\<close>, trimmed; it must match
  \<^verbatim>\<open>TYPE_REGEXP\<close> and is lower-cased.
\<close>

definition parse :: "jsval \<Rightarrow> exn + ContentType" where
  "parse string =
     (if falsy string then Inl TypeError
      else (case string of
         JString header \<Rightarrow>
           (let index = indexOf header (CHR '';'');
                type = (if index \<noteq> - 1 then trim (slice header 0 index) else trim header)
            in if \<not> TYPE_REGEXP type then Inl TypeError
               else if index \<noteq> - 1 then
                 (case parseParams (sliceFrom header index) [] of
                    Inl err \<Rightarrow> Inl err
                  | Inr ps \<Rightarrow> Inr \<lparr>mediaType = toLowerCase type, parameters = ps\<rparr>)
               else Inr \<lparr>mediaType = toLowerCase type, parameters = []\<rparr>)
       | _ \<Rightarrow> Inl TypeError))"

text \<open>
  Modelled from the spec: \<^verbatim>\<open>qstring\<close> and \<^verbatim>\<open>contentType.format(obj)\<close>. The type must match \<^verbatim>\<open>TYPE_REGEXP\<close>;
  the parameters follow in the order of their names, a value that is not a token
  quoted.
\<close>

definition qstring :: "string \<Rightarrow> exn + string" where
  "qstring val =
     (if TOKEN_REGEXP val then Inr val
      else if val \<noteq> [] \<and> \<not> TEXT_REGEXP val then Inl TypeError
      else Inr ([CHR 0x22] @
                concat (map (\<lambda>c. if c = CHR 0x5C \<or> c = CHR 0x22 then [CHR 0x5C, c] else [c]) val) @
                [CHR 0x22]))"

fun formatParams :: "(string \<times> string) list \<Rightarrow> exn + string" where
  "formatParams [] = Inr []"
| "formatParams ((param, val) # ps) =
     (if \<not> TOKEN_REGEXP param then Inl TypeError
      else (case qstring val of
              Inl err \<Rightarrow> Inl err
            | Inr q \<Rightarrow>
                (case formatParams ps of
                   Inl err \<Rightarrow> Inl err
                 | Inr str \<Rightarrow> Inr (''; '' @ param @ ''='' @ q @ str))))"

definition format :: "ContentType \<Rightarrow> exn + string" where
  "format obj =
     (if mediaType obj = [] \<or> \<not> TYPE_REGEXP (mediaType obj) then Inl TypeError
      else (case formatParams (sort_key fst (parameters obj)) of
              Inl err \<Rightarrow> Inl err
            | Inr str \<Rightarrow> Inr (mediaType obj @ str)))"

text \<open>
  Modelled from the spec: \<^verbatim>\<open>mime.lookup(path)\<close> over the registry \<open>types\<close> of extensions.
  \<^verbatim>\<open>extname('x.' + path).toLowerCase().substr(1)\<close> is looked up, and an empty
  extension or an unregistered one gives \<^verbatim>\<open>false\<close>. \<^verbatim>\<open>extname\<close> (POSIX) is the last
  segment of the path from its last dot on, and empty when the segment has no dot,
  starts with its only dot, or is \<^verbatim>\<open>..\<close>.
\<close>

definition basename :: "string \<Rightarrow> string" where
  "basename path =
     rev (takeWhile (\<lambda>c. c \<noteq> CHR ''/'') (dropWhile (\<lambda>c. c = CHR ''/'') (rev path)))"

definition extname :: "string \<Rightarrow> string" where
  "extname path =
     (let base = basename path;
          ext = rev (takeWhile (\<lambda>c. c \<noteq> CHR ''.'') (rev base))
      in if CHR ''.'' \<notin> set base \<or> length ext + 1 = length base \<or> base = ''..'' then []
         else CHR ''.'' # ext)"

definition lookup :: "(string \<rightharpoonup> string) \<Rightarrow> string \<Rightarrow> string option" where
  "lookup types path =
     (if path = [] then None
      else (let extension = drop 1 (toLowerCase (extname (''x.'' @ path)))
            in if extension = [] then None
               else (case types extension of
                       None \<Rightarrow> None
                     | Some t \<Rightarrow> if t = [] then None else Some t)))"

text \<open>The packages over a registry \<open>types\<close>.\<close>

definition packages :: "(string \<rightharpoonup> string) \<Rightarrow> deps" where
  "packages types =
     \<lparr>contentType_parse = parse, contentType_format = format, mime_lookup = lookup types\<rparr>"

text \<open>
  An excerpt of the registry for concrete runs; the registry itself is a parameter of
  every statement about \<open>lookup\<close>.
\<close>

definition registry :: "string \<rightharpoonup> string" where
  "registry =
     [''json'' \<mapsto> ''application/json'', ''png'' \<mapsto> ''image/png'',
      ''jpeg'' \<mapsto> ''image/jpeg'', ''html'' \<mapsto> ''text/html'']"

section \<open>Notions used in the statements\<close>

text \<open>An upper-case ASCII letter, and the text of a header value before its first \<^verbatim>\<open>;\<close>.\<close>

definition isUpperCase :: "char \<Rightarrow> bool" where
  "isUpperCase c = (65 \<le> (of_char c :: nat) \<and> (of_char c :: nat) \<le> 90)"

definition mediaPart :: "string \<Rightarrow> string" where
  "mediaPart header = takeWhile (\<lambda>c. c \<noteq> CHR '';'') header"

section \<open>Properties of the string primitives\<close>

lemma split_not_Nil: "split c s \<noteq> []"
  by (induction s) (auto split: list.splits)

lemma split_no_sep: "c \<notin> set a \<Longrightarrow> split c a = [a]"
  by (induction a) auto

lemma split_at_sep: "c \<notin> set a \<Longrightarrow> split c (a @ c # b) = a # split c b"
  by (induction a) auto

lemma split_decompose:
  assumes "c \<in> set s"
  obtains a b where "s = a @ c # b" and "c \<notin> set a" and "split c s = a # split c b"
proof -
  from assms obtain a b where "s = a @ c # b" and "c \<notin> set a"
    by (meson split_list_first)
  then show thesis using that split_at_sep by blast
qed

lemma split_one: "split c s = [a] \<longleftrightarrow> s = a \<and> c \<notin> set a"
proof
  assume one: "split c s = [a]"
  have "c \<notin> set s"
  proof
    assume "c \<in> set s"
    then obtain x y where "split c s = x # split c y"
      by (rule split_decompose)
    with one show False by (simp add: split_not_Nil)
  qed
  with one show "s = a \<and> c \<notin> set a" by (simp add: split_no_sep)
next
  assume "s = a \<and> c \<notin> set a"
  then show "split c s = [a]" by (simp add: split_no_sep)
qed

lemma split_two:
  "split c s = [a, b] \<longleftrightarrow> s = a @ c # b \<and> c \<notin> set a \<and> c \<notin> set b"
proof
  assume two: "split c s = [a, b]"
  have "c \<in> set s"
  proof (rule ccontr)
    assume "c \<notin> set s"
    then have "split c s = [s]" by (rule split_no_sep)
    with two show False by simp
  qed
  then obtain x y where s: "s = x @ c # y" and x: "c \<notin> set x"
    and sp: "split c s = x # split c y"
    by (rule split_decompose)
  from two sp have "x = a" and "split c y = [b]" by simp_all
  then show "s = a @ c # b \<and> c \<notin> set a \<and> c \<notin> set b"
    using s x by (simp add: split_one)
next
  assume "s = a @ c # b \<and> c \<notin> set a \<and> c \<notin> set b"
  then show "split c s = [a, b]"
    by (simp add: split_at_sep split_no_sep)
qed

lemma indexOf_ge: "- 1 \<le> indexOf s c"
  by (induction s) (auto simp: Let_def)

lemma indexOf_minus1: "indexOf s c = - 1 \<longleftrightarrow> c \<notin> set s"
proof (induction s)
  case Nil
  then show ?case by simp
next
  case (Cons x xs)
  have "- 1 \<le> indexOf xs c" by (rule indexOf_ge)
  then show ?case using Cons by (auto simp: Let_def)
qed

lemma firstIs_prefix: "firstIs s c \<longleftrightarrow> prefix [c] s"
  by (cases s) (auto simp: firstIs_def)

lemma slice_0_2: "slice s 0 2 = take 2 s"
  by (simp add: slice_def relIndex_def Let_def min_def)

lemma sliceFrom_1: "sliceFrom s 1 = drop 1 s"
  by (cases s) (simp_all add: sliceFrom_def relIndex_def Let_def)

lemma sliceFrom_tail:
  assumes "length e \<le> length a + 1" and "2 \<le> length e"
  shows "sliceFrom a (1 - int (length e)) = drop (length a - (length e - 1)) a"
proof -
  have "1 - int (length e) < 0" using assms by simp
  moreover have "nat (max (int (length a) + (1 - int (length e))) 0) = length a - (length e - 1)"
    using assms by simp
  ultimately show ?thesis
    by (simp only: sliceFrom_def relIndex_def Let_def if_True)
qed

section \<open>The wildcard matcher on a suffix pattern\<close>

lemma mimeMatch_two_segments:
  assumes "split (CHR ''/'') expected = [etype, esub]"
    and "split (CHR ''/'') actual = [atype, asub]"
  shows "mimeMatch (Some expected) actual \<longleftrightarrow>
           (etype = ''*'' \<or> etype = atype) \<and>
           (if take 2 esub = ''*+''
            then length esub \<le> length asub + 1 \<and>
                 drop 1 esub = sliceFrom asub (1 - int (length esub))
            else esub = ''*'' \<or> esub = asub)"
  using assms by (auto simp: mimeMatch_def slice_0_2 sliceFrom_1)

text \<open>
  C5. For a pattern of two segments whose subtype \<open>suf\<close> starts with \<^verbatim>\<open>*+\<close> and an
  actual media type of two segments, \<open>mimeMatch\<close> holds iff the type segment matches
  and, on the subtype position, \<open>length suf \<le> length sub + 1\<close> and \<open>suf\<close> without its
  leading \<^verbatim>\<open>*\<close> equals the last \<open>length suf - 1\<close> characters of the actual subtype
  \<open>sub\<close>.
\<close>

theorem mimeMatch_suffix_wildcard:
  assumes "split (CHR ''/'') expected = [etype, suf]"
    and "split (CHR ''/'') actual = [atype, sub]"
    and "take 2 suf = ''*+''"
  shows "mimeMatch (Some expected) actual \<longleftrightarrow>
           (etype = ''*'' \<or> etype = atype) \<and>
           length suf \<le> length sub + 1 \<and>
           drop 1 suf = drop (length sub - (length suf - 1)) sub"
proof -
  from assms(3) have len: "2 \<le> length suf"
    by (cases suf; cases "tl suf") auto
  have "length suf \<le> length sub + 1 \<Longrightarrow>
        sliceFrom sub (1 - int (length suf)) = drop (length sub - (length suf - 1)) sub"
    using len by (simp add: sliceFrom_tail)
  then show ?thesis
    using mimeMatch_two_segments [OF assms(1,2)] assms(3) by auto
qed

theorem mimeMatch_suffix_wildcard_witness:
  "mimeMatch (Some ''*/*+xml'') ''text/html+xml'' \<and>
   \<not> mimeMatch (Some ''*/*+xml'') ''text/html'' \<and>
   \<not> mimeMatch (Some ''text/*+xml'') ''image/svg+xml''"
proof -
  have e: "split (CHR ''/'') ''*/*+xml'' = [''*'', ''*+xml'']" by simp
  have e': "split (CHR ''/'') ''text/*+xml'' = [''text'', ''*+xml'']" by simp
  have a1: "split (CHR ''/'') ''text/html+xml'' = [''text'', ''html+xml'']" by simp
  have a2: "split (CHR ''/'') ''text/html'' = [''text'', ''html'']" by simp
  have a3: "split (CHR ''/'') ''image/svg+xml'' = [''image'', ''svg+xml'']" by simp
  have p: "take 2 ''*+xml'' = ''*+''" by simp
  show ?thesis
    using mimeMatch_suffix_wildcard [OF e a1 p] mimeMatch_suffix_wildcard [OF e a2 p]
      mimeMatch_suffix_wildcard [OF e' a3 p]
    by simp
qed

section \<open>The loop over the patterns\<close>

lemma normalize_pattern_non_string:
  "(\<And>s. type \<noteq> JString s) \<Longrightarrow> normalize_pattern D type = None"
  by (cases type) (auto simp: normalize_pattern_def)

lemma match_is_string:
  assumes "mimeMatch (normalize_pattern D type) actual"
  obtains token where "type = JString token"
proof (cases type)
  case (JString token)
  then show ?thesis by (rule that)
qed (use assms in \<open>simp_all add: normalize_pattern_def mimeMatch_def\<close>)

lemma matched_string:
  "matched actual (JString token) =
     Inr (JString (if firstIs token (CHR ''+'') \<or> CHR ''*'' \<in> set token then actual else token))"
  by (simp add: matched_def indexOf_minus1)

lemma matchFirst_none:
  "(\<And>type. type \<in> set acceptable \<Longrightarrow> \<not> mimeMatch (normalize_pattern D type) actual) \<Longrightarrow>
   matchFirst D actual acceptable = Inr (JBool False)"
  by (induction acceptable) simp_all

lemma matchFirst_append:
  "(\<And>type. type \<in> set before \<Longrightarrow> \<not> mimeMatch (normalize_pattern D type) actual) \<Longrightarrow>
   matchFirst D actual (before @ acceptable) = matchFirst D actual acceptable"
  by (induction before) simp_all

lemma matchFirst_lowest:
  assumes "i < length acceptable"
    and "mimeMatch (normalize_pattern D (acceptable ! i)) actual"
    and "\<And>j. j < i \<Longrightarrow> \<not> mimeMatch (normalize_pattern D (acceptable ! j)) actual"
  shows "matchFirst D actual (take (Suc i) acceptable @ later) = matched actual (acceptable ! i)"
proof -
  have split_up: "take (Suc i) acceptable @ later = take i acceptable @ (acceptable ! i) # later"
    using assms(1) by (simp add: take_Suc_conv_app_nth)
  have "\<not> mimeMatch (normalize_pattern D type) actual" if "type \<in> set (take i acceptable)" for type
  proof -
    from that obtain j where "j < i" and "j < length acceptable" and "type = acceptable ! j"
      using assms(1) by (auto simp: in_set_conv_nth)
    then show ?thesis using assms(3) by simp
  qed
  then have "matchFirst D actual (take i acceptable @ (acceptable ! i) # later) =
               matchFirst D actual ((acceptable ! i) # later)"
    by (rule matchFirst_append)
  then show ?thesis using split_up assms(2) by simp
qed

lemma matchFirst_result:
  "matchFirst D actual acceptable = Inr (JBool False) \<or>
   (\<exists>s. matchFirst D actual acceptable = Inr (JString s))"
proof (induction acceptable)
  case Nil
  then show ?case by simp
next
  case (Cons type later)
  show ?case
  proof (cases "mimeMatch (normalize_pattern D type) actual")
    case True
    then obtain token where "type = JString token" by (rule match_is_string)
    with True show ?thesis by (simp add: matched_string)
  next
    case False
    with Cons show ?thesis by simp
  qed
qed

lemma flattened_array: "flattened [JArray acceptable] = acceptable"
  by (simp add: flattened_def)

lemma typeis_is_valid:
  assumes "tryNormalizeType D actual' = Some actual" and "actual \<noteq> []"
  shows "typeis_is D actual' rest =
           (if flattened rest = [] then Inr (JString actual)
            else matchFirst D actual (flattened rest))"
  using assms by (simp add: typeis_is_def Let_def)

lemma typeis_is_invalid:
  "tryNormalizeType D actual' = None \<or> tryNormalizeType D actual' = Some [] \<Longrightarrow>
   typeis_is D actual' rest = Inr (JBool False)"
  by (auto simp: typeis_is_def)

lemma typeis_is_result:
  "typeis_is D actual' rest = Inr (JBool False) \<or> (\<exists>s. typeis_is D actual' rest = Inr (JString s))"
proof (cases "tryNormalizeType D actual'")
  case None
  then show ?thesis by (simp add: typeis_is_invalid)
next
  case (Some actual)
  show ?thesis
  proof (cases "actual = []")
    case True
    with Some show ?thesis by (simp add: typeis_is_invalid)
  next
    case False
    with Some show ?thesis
      using matchFirst_result [of D actual "flattened rest"] by (simp add: typeis_is_valid)
  qed
qed

lemma typeis_is_flattened: "typeis_is D actual' [JArray (flattened rest)] = typeis_is D actual' rest"
  by (simp add: typeis_is_def flattened_array split: option.split)

lemma hasBody_content_type: "hasBody (headers(''content-type'' := v)) = hasBody headers"
  by (simp add: hasBody_def)

lemma typeIs_unfold:
  "typeIs D headers rest =
     (if hasBody headers then typeis_is D (headerValue headers ''content-type'') rest
      else Inr JNull)"
  by (simp add: typeIs_def Let_def typeis_is_flattened)

section \<open>The header-level decision\<close>

text \<open>
  C1. \<open>typeIs\<close> returns \<^verbatim>\<open>null\<close> exactly when \<open>hasBody\<close> of the headers is false, whatever
  the patterns are and whatever the content-type header holds (\<open>hasBody\<close> does not
  depend on it); otherwise it returns what \<^verbatim>\<open>is\<close> returns on the content-type value of
  the headers (\<^verbatim>\<open>undefined\<close> when absent) and the same patterns.
\<close>

theorem typeIs_null_or_is:
  "typeIs D headers rest =
     (if hasBody headers then typeis_is D (headerValue headers ''content-type'') rest
      else Inr JNull) \<and>
   (typeIs D headers rest = Inr JNull \<longleftrightarrow> \<not> hasBody headers) \<and>
   hasBody (headers(''content-type'' := v)) = hasBody headers"
proof -
  have "typeis_is D (headerValue headers ''content-type'') rest \<noteq> Inr JNull"
    using typeis_is_result [of D "headerValue headers ''content-type''" rest] by auto
  then show ?thesis
    by (simp add: typeIs_unfold hasBody_content_type)
qed

theorem typeIs_null_or_is_witness:
  "typeIs (packages registry) Map.empty [JArray [JString ''image/*'']] = Inr JNull \<and>
   typeIs (packages registry) [''content-type'' \<mapsto> ''text/html''] [JString ''*/*''] = Inr JNull \<and>
   typeIs (packages registry) [''transfer-encoding'' \<mapsto> ''chunked'']
     [JArray [JString ''image/*'']] = Inr (JBool False) \<and>
   typeIs (packages registry)
     [''content-type'' \<mapsto> ''application/vnd+json'', ''transfer-encoding'' \<mapsto> ''chunked'']
     [JString ''+json''] = Inr (JString ''application/vnd+json'')"
proof -
  let ?h = "[''content-type'' \<mapsto> ''application/vnd+json'', ''transfer-encoding'' \<mapsto> ''chunked'']"
  have n1: "\<not> hasBody Map.empty" by code_simp
  have n2: "\<not> hasBody [''content-type'' \<mapsto> ''text/html'']" by code_simp
  have b1: "hasBody [''transfer-encoding'' \<mapsto> ''chunked'']" by code_simp
  have b2: "hasBody ?h" by code_simp
  have i1: "typeis_is (packages registry)
              (headerValue [''transfer-encoding'' \<mapsto> ''chunked''] ''content-type'')
              [JArray [JString ''image/*'']] = Inr (JBool False)"
    by code_simp
  have i2: "typeis_is (packages registry) (headerValue ?h ''content-type'') [JString ''+json'']
              = Inr (JString ''application/vnd+json'')"
    by code_simp
  show ?thesis
    using typeIs_null_or_is [of "packages registry" Map.empty "[JArray [JString ''image/*'']]"]
      typeIs_null_or_is [of "packages registry" "[''content-type'' \<mapsto> ''text/html'']"
        "[JString ''*/*'']"]
      typeIs_null_or_is [of "packages registry" "[''transfer-encoding'' \<mapsto> ''chunked'']"
        "[JArray [JString ''image/*'']]"]
      typeIs_null_or_is [of "packages registry" ?h "[JString ''+json'']"]
      n1 n2 b1 b2 i1 i2
    by simp
qed

section \<open>What the type decision returns on a match\<close>

text \<open>
  C3. When the actual media type is valid and some pattern matches, the pattern at the
  lowest matching index is a string, and \<^verbatim>\<open>is\<close> returns the normalized actual media type
  when that original token starts with \<^verbatim>\<open>+\<close> or contains \<^verbatim>\<open>*\<close> anywhere, and the original
  token itself, unchanged, otherwise.
\<close>

theorem is_returns_token_or_actual:
  assumes "tryNormalizeType D actual' = Some actual" and "actual \<noteq> []"
    and "i < length (flattened rest)"
    and "mimeMatch (normalize_pattern D (flattened rest ! i)) actual"
    and "\<forall>j<i. \<not> mimeMatch (normalize_pattern D (flattened rest ! j)) actual"
  shows "\<exists>token. flattened rest ! i = JString token \<and>
           typeis_is D actual' rest =
             Inr (JString (if prefix ''+'' token \<or> CHR ''*'' \<in> set token then actual
                           else token))"
proof -
  from assms(4) obtain token where token: "flattened rest ! i = JString token"
    by (rule match_is_string)
  have "matchFirst D actual (take (Suc i) (flattened rest) @ drop (Suc i) (flattened rest)) =
          matched actual (flattened rest ! i)"
    using assms(3,4,5) by (intro matchFirst_lowest) simp_all
  then have "matchFirst D actual (flattened rest) = matched actual (JString token)"
    using token by simp
  moreover have "flattened rest \<noteq> []" using assms(3) by auto
  ultimately show ?thesis
    using token assms(1,2) by (simp add: typeis_is_valid matched_string firstIs_prefix)
qed

theorem is_returns_token_or_actual_witness:
  "typeis_is (packages registry) (JString ''image/png'')
     [JArray [JString ''jpeg'', JString ''.png'', JString ''image/*'']] = Inr (JString ''.png'') \<and>
   typeis_is (packages registry) (JString ''Image/PNG; q=1'')
     [JString ''text/*'', JString ''image/*'', JString ''png''] = Inr (JString ''image/png'') \<and>
   typeis_is (packages registry) (JString ''application/vnd+json'')
     [JString ''+json''] = Inr (JString ''application/vnd+json'')"
proof -
  let ?D = "packages registry"
  have a1: "tryNormalizeType ?D (JString ''image/png'') = Some ''image/png''" by code_simp
  have a2: "tryNormalizeType ?D (JString ''Image/PNG; q=1'') = Some ''image/png''" by code_simp
  have a3: "tryNormalizeType ?D (JString ''application/vnd+json'') = Some ''application/vnd+json''"
    by code_simp
  let ?r1 = "[JArray [JString ''jpeg'', JString ''.png'', JString ''image/*'']]"
  let ?r2 = "[JString ''text/*'', JString ''image/*'', JString ''png'']"
  let ?r3 = "[JString ''+json'']"
  have f1: "flattened ?r1 = [JString ''jpeg'', JString ''.png'', JString ''image/*'']"
    and f2: "flattened ?r2 = ?r2" and f3: "flattened ?r3 = ?r3"
    by (simp_all add: flattened_def)
  have m1: "mimeMatch (normalize_pattern ?D (JString ''.png'')) ''image/png''"
    and n1: "\<not> mimeMatch (normalize_pattern ?D (JString ''jpeg'')) ''image/png''"
    and m2: "mimeMatch (normalize_pattern ?D (JString ''image/*'')) ''image/png''"
    and n2: "\<not> mimeMatch (normalize_pattern ?D (JString ''text/*'')) ''image/png''"
    and m3: "mimeMatch (normalize_pattern ?D (JString ''+json'')) ''application/vnd+json''"
    by code_simp+
  have "\<exists>token. flattened ?r1 ! 1 = JString token \<and>
          typeis_is ?D (JString ''image/png'') ?r1 =
            Inr (JString (if prefix ''+'' token \<or> CHR ''*'' \<in> set token then ''image/png''
                          else token))"
    by (rule is_returns_token_or_actual [OF a1]) (simp_all add: f1 m1 n1)
  moreover have "\<exists>token. flattened ?r2 ! 1 = JString token \<and>
          typeis_is ?D (JString ''Image/PNG; q=1'') ?r2 =
            Inr (JString (if prefix ''+'' token \<or> CHR ''*'' \<in> set token then ''image/png''
                          else token))"
    by (rule is_returns_token_or_actual [OF a2]) (simp_all add: f2 m2 n2)
  moreover have "\<exists>token. flattened ?r3 ! 0 = JString token \<and>
          typeis_is ?D (JString ''application/vnd+json'') ?r3 =
            Inr (JString (if prefix ''+'' token \<or> CHR ''*'' \<in> set token
                          then ''application/vnd+json'' else token))"
    by (rule is_returns_token_or_actual [OF a3]) (simp_all add: f3 m3)
  ultimately show ?thesis
    by (auto simp: f1 f2 f3)
qed

section \<open>First match wins\<close>

text \<open>
  C4. When the actual media type is valid and \<open>i\<close> is the lowest index of a pattern
  that matches, \<^verbatim>\<open>is\<close> on the whole list returns what it returns on the list holding the
  pattern at \<open>i\<close> alone, and whatever follows index \<open>i\<close> has no effect: replacing the
  patterns after \<open>i\<close> by any others gives the same result.
\<close>

theorem is_first_match_wins:
  assumes "tryNormalizeType D actual' = Some actual" and "actual \<noteq> []"
    and "i < length (flattened rest)"
    and "mimeMatch (normalize_pattern D (flattened rest ! i)) actual"
    and "\<forall>j<i. \<not> mimeMatch (normalize_pattern D (flattened rest ! j)) actual"
  shows "typeis_is D actual' rest = typeis_is D actual' [JArray [flattened rest ! i]] \<and>
         (\<forall>later. typeis_is D actual' [JArray (take (Suc i) (flattened rest) @ later)] =
                    typeis_is D actual' rest)"
proof -
  let ?ps = "flattened rest"
  have lowest: "matchFirst D actual (take (Suc i) ?ps @ later) = matched actual (?ps ! i)"
    for later
    using assms(3,4,5) by (intro matchFirst_lowest) simp_all
  have "matchFirst D actual (take (Suc i) ?ps @ drop (Suc i) ?ps) = matched actual (?ps ! i)"
    by (rule lowest)
  then have whole: "typeis_is D actual' rest = matched actual (?ps ! i)"
    using assms(1,2,3) by (auto simp: typeis_is_valid)
  have alone: "typeis_is D actual' [JArray [?ps ! i]] = matched actual (?ps ! i)"
    using assms(1,2,4) by (simp add: typeis_is_valid flattened_array)
  have "typeis_is D actual' [JArray (take (Suc i) ?ps @ later)] = matched actual (?ps ! i)"
    for later
    using assms(1,2,3) lowest [of later] by (auto simp: typeis_is_valid flattened_array)
  with whole alone show ?thesis by simp
qed

theorem is_first_match_wins_witness:
  "typeis_is (packages registry) (JString ''image/png'')
     [JArray [JString ''text/*'', JString ''png'', JString ''image/*'']] = Inr (JString ''png'') \<and>
   typeis_is (packages registry) (JString ''image/png'')
     [JArray [JString ''text/*'', JString ''png'', JString ''*/*'', JBool True]] =
     Inr (JString ''png'')"
proof -
  let ?D = "packages registry"
  let ?ps = "[JString ''text/*'', JString ''png'', JString ''image/*'']"
  have a: "tryNormalizeType ?D (JString ''image/png'') = Some ''image/png''" by code_simp
  have ne: "''image/png'' \<noteq> []" by simp
  have f: "flattened [JArray ?ps] = ?ps" by (simp add: flattened_def)
  have i: "1 < length (flattened [JArray ?ps])" by (simp add: f)
  have m: "mimeMatch (normalize_pattern ?D (flattened [JArray ?ps] ! 1)) ''image/png''"
    unfolding f by code_simp
  have "\<not> mimeMatch (normalize_pattern ?D (JString ''text/*'')) ''image/png''" by code_simp
  then have n: "\<forall>j<1. \<not> mimeMatch (normalize_pattern ?D (flattened [JArray ?ps] ! j)) ''image/png''"
    by (simp add: f)
  have alone: "typeis_is ?D (JString ''image/png'') [JArray [JString ''png'']] = Inr (JString ''png'')"
    by code_simp
  note wins = is_first_match_wins [OF a ne i m n]
  from wins have one: "typeis_is ?D (JString ''image/png'') [JArray ?ps] =
          typeis_is ?D (JString ''image/png'') [JArray [JString ''png'']]"
    unfolding f by simp
  from wins have "\<forall>later. typeis_is ?D (JString ''image/png'')
           [JArray (take (Suc 1) ?ps @ later)] =
         typeis_is ?D (JString ''image/png'') [JArray ?ps]"
    unfolding f by (rule conjunct2)
  then have "typeis_is ?D (JString ''image/png'')
           [JArray (take (Suc 1) ?ps @ [JString ''*/*'', JBool True])] =
         typeis_is ?D (JString ''image/png'') [JArray ?ps]"
    by (rule spec)
  with one alone show ?thesis by simp
qed

section \<open>No exception reaches the caller\<close>

text \<open>
  C7. \<^verbatim>\<open>is\<close> and \<open>typeIs\<close> return a value on every actual argument, every header map
  and every pattern list, whatever the entries of the list are (strings, booleans,
  \<^verbatim>\<open>null\<close>, \<^verbatim>\<open>undefined\<close>, numbers, functions, objects, arrays) and whatever the
  imported packages throw: an exception of the parser or the formatter becomes
  \<^verbatim>\<open>null\<close> in \<open>tryNormalizeType\<close> and \<^verbatim>\<open>false\<close> in \<^verbatim>\<open>is\<close>. \<^verbatim>\<open>normalize\<close> and
  \<open>mimeMatch\<close> hold no operation that throws on an argument of their declared types,
  so their models return plain values: \<^verbatim>\<open>normalize\<close> gives \<^verbatim>\<open>false\<close> on every value
  that is not a string, \<open>mimeMatch\<close> gives \<^verbatim>\<open>false\<close> on \<^verbatim>\<open>false\<close>, and a list without
  a string never matches.
\<close>

theorem no_exception_reaches_caller:
  "(\<exists>r. typeis_is D actual' rest = Inr r) \<and>
   (\<exists>r. typeIs D headers rest = Inr r) \<and>
   ((\<exists>err. normalizeType D actual' = Inl err) \<longrightarrow>
      tryNormalizeType D actual' = None \<and> typeis_is D actual' rest = Inr (JBool False)) \<and>
   ((\<forall>s. type \<noteq> JString s) \<longrightarrow>
      normalize_pattern D type = None \<and> \<not> mimeMatch (normalize_pattern D type) actual) \<and>
   (flattened rest \<noteq> [] \<and> (\<forall>type \<in> set (flattened rest). \<forall>s. type \<noteq> JString s) \<longrightarrow>
      typeis_is D actual' rest = Inr (JBool False))"
proof (intro conjI impI)
  show is_returns: "\<exists>r. typeis_is D actual' rest = Inr r" for actual'
    using typeis_is_result [of D actual' rest] by auto
  show "\<exists>r. typeIs D headers rest = Inr r"
    using is_returns [of "headerValue headers ''content-type''"] by (simp add: typeIs_unfold)
next
  assume "\<exists>err. normalizeType D actual' = Inl err"
  then show none: "tryNormalizeType D actual' = None"
    by (auto simp: tryNormalizeType_def)
  then show "typeis_is D actual' rest = Inr (JBool False)"
    by (simp add: typeis_is_invalid)
next
  assume "\<forall>s. type \<noteq> JString s"
  then show none: "normalize_pattern D type = None"
    by (simp add: normalize_pattern_non_string)
  then show "\<not> mimeMatch (normalize_pattern D type) actual"
    by (simp add: mimeMatch_def)
next
  assume a: "flattened rest \<noteq> [] \<and> (\<forall>type \<in> set (flattened rest). \<forall>s. type \<noteq> JString s)"
  show "typeis_is D actual' rest = Inr (JBool False)"
  proof (cases "tryNormalizeType D actual' = None \<or> tryNormalizeType D actual' = Some []")
    case True
    then show ?thesis by (rule typeis_is_invalid)
  next
    case False
    then obtain act where act: "tryNormalizeType D actual' = Some act" "act \<noteq> []" by auto
    have "\<not> mimeMatch (normalize_pattern D type) act" if "type \<in> set (flattened rest)" for type
      using that a by (simp add: normalize_pattern_non_string mimeMatch_def)
    then have "matchFirst D act (flattened rest) = Inr (JBool False)"
      by (rule matchFirst_none)
    with act a show ?thesis by (simp add: typeis_is_valid)
  qed
qed

theorem no_exception_reaches_caller_witness:
  "normalizeType (packages registry) (JString ''text/html;'') = Inl TypeError \<and>
   typeis_is (packages registry) (JString ''text/html;'') [JString ''*/*''] = Inr (JBool False) \<and>
   typeis_is (packages registry) (JString ''text/html'')
     [JArray [JUndefined, JNull, JBool True, JFunction, JObject, JNumber 42, JArray []]] =
     Inr (JBool False) \<and>
   normalize_pattern (packages registry) JObject = None"
proof -
  let ?D = "packages registry"
  let ?junk = "[JUndefined, JNull, JBool True, JFunction, JObject, JNumber 42, JArray []]"
  have thrown: "normalizeType ?D (JString ''text/html;'') = Inl TypeError" by code_simp
  have junk: "flattened [JArray ?junk] \<noteq> [] \<and>
              (\<forall>type \<in> set (flattened [JArray ?junk]). \<forall>s. type \<noteq> JString s)"
    by (simp add: flattened_def)
  have obj: "\<forall>s. JObject \<noteq> JString s" by simp
  show ?thesis
    using no_exception_reaches_caller [of ?D "JString ''text/html;''" "[JString ''*/*'']"
        Map.empty JObject "''text/html''"]
      no_exception_reaches_caller [of ?D "JString ''text/html''" "[JArray ?junk]"
        Map.empty JObject "''text/html''"]
      thrown junk obj
    by simp
qed

section \<open>The body check\<close>

lemma dropWhile_all: "list_all P s \<Longrightarrow> dropWhile P s = []"
  by (induction s) simp_all

lemma trimWhiteSpace_blank: "list_all isStrWhiteSpaceChar s \<Longrightarrow> trimWhiteSpace s = []"
  by (simp add: trimWhiteSpace_def dropWhile_all)

lemma trimWhiteSpace_none:
  assumes "s \<noteq> []" and "\<not> isStrWhiteSpaceChar (hd s)" and "\<not> isStrWhiteSpaceChar (last s)"
  shows "trimWhiteSpace s = s"
proof -
  from assms(1,2) have front: "dropWhile isStrWhiteSpaceChar s = s"
    by (cases s) simp_all
  from assms(1,3) have "dropWhile isStrWhiteSpaceChar (rev s) = rev s"
    by (cases "rev s") (simp_all add: last_rev [symmetric] hd_rev)
  with front show ?thesis by (simp add: trimWhiteSpace_def)
qed

lemma digit_not_white: "isDecimalDigit c \<Longrightarrow> \<not> isStrWhiteSpaceChar c"
  by (auto simp: isDecimalDigit_def isStrWhiteSpaceChar_def)

lemma digits_numeric:
  assumes "isDecimalDigits s"
  shows "isStringNumericLiteral s"
proof -
  from assms have ne: "s \<noteq> []" and all: "list_all isDecimalDigit s"
    by (simp_all add: isDecimalDigits_def)
  from ne all have "isDecimalDigit (hd s)" and "isDecimalDigit (last s)"
    by (simp_all add: list_all_iff)
  then have trimmed: "trimWhiteSpace s = s"
    using ne by (intro trimWhiteSpace_none) (simp_all add: digit_not_white)
  from all have tw: "takeWhile isDecimalDigit s = s" and dw: "dropWhile isDecimalDigit s = []"
    by (simp_all add: list_all_iff)
  have unsigned: "isStrUnsignedDecimalLiteral s"
    using ne by (simp add: isStrUnsignedDecimalLiteral_def tw dw)
  obtain c r where s: "s = c # r" using ne by (cases s) auto
  with \<open>isDecimalDigit (hd s)\<close> have "c \<noteq> CHR ''+''" and "c \<noteq> CHR ''-''"
    by (auto simp: isDecimalDigit_def)
  with unsigned s have "isStrDecimalLiteral s"
    by (simp add: isStrDecimalLiteral_def)
  with trimmed show ?thesis
    by (simp add: isStringNumericLiteral_def)
qed

lemma hasBody_unfold:
  "hasBody headers \<longleftrightarrow>
     headers ''transfer-encoding'' \<noteq> None \<or>
     (\<exists>s. headers ''content-length'' = Some s \<and> isStringNumericLiteral s)"
  by (cases "headers ''content-length''") (simp_all add: hasBody_def isNaN_def)

text \<open>
  C6. \<open>hasBody\<close> holds iff the transfer-encoding header is present, with any value (the
  empty string too), or the content-length header is present and converts to a number.
  Every non-empty string of decimal digits converts to a number, \<^verbatim>\<open>"0"\<close> among them;
  \<^verbatim>\<open>"bogus"\<close> does not.
\<close>

theorem hasBody_iff_framing_header:
  "(hasBody headers \<longleftrightarrow>
      headers ''transfer-encoding'' \<noteq> None \<or>
      (\<exists>s. headers ''content-length'' = Some s \<and> isStringNumericLiteral s)) \<and>
   (headers ''transfer-encoding'' = Some v \<longrightarrow> hasBody headers) \<and>
   (isDecimalDigits digits \<longrightarrow> isStringNumericLiteral digits) \<and>
   isStringNumericLiteral ''0'' \<and>
   \<not> isStringNumericLiteral ''bogus''"
proof (intro conjI impI)
  show "hasBody headers \<longleftrightarrow>
      headers ''transfer-encoding'' \<noteq> None \<or>
      (\<exists>s. headers ''content-length'' = Some s \<and> isStringNumericLiteral s)"
    by (rule hasBody_unfold)
  show "hasBody headers" if "headers ''transfer-encoding'' = Some v"
    using that by (simp add: hasBody_def)
  show "isStringNumericLiteral digits" if "isDecimalDigits digits"
    using that by (rule digits_numeric)
  show "isStringNumericLiteral ''0''" by code_simp
  show "\<not> isStringNumericLiteral ''bogus''" by code_simp
qed

theorem hasBody_iff_framing_header_witness:
  "hasBody [''content-length'' \<mapsto> ''0''] \<and>
   hasBody [''content-length'' \<mapsto> ''1''] \<and>
   hasBody [''transfer-encoding'' \<mapsto> []] \<and>
   \<not> hasBody [''content-length'' \<mapsto> ''bogus''] \<and>
   \<not> hasBody [''content-type'' \<mapsto> ''text/html'']"
proof -
  have d0: "isDecimalDigits ''0''" and d1: "isDecimalDigits ''1''" by code_simp+
  have bogus: "\<not> isStringNumericLiteral ''bogus''" by code_simp
  show ?thesis
    using hasBody_iff_framing_header [of "[''content-length'' \<mapsto> ''0'']" "[]" "''0''"]
      hasBody_iff_framing_header [of "[''content-length'' \<mapsto> ''1'']" "[]" "''1''"]
      hasBody_iff_framing_header [of "[''transfer-encoding'' \<mapsto> []]" "[]" "''0''"]
      hasBody_iff_framing_header [of "[''content-length'' \<mapsto> ''bogus'']" "[]" "''0''"]
      hasBody_iff_framing_header [of "[''content-type'' \<mapsto> ''text/html'']" "[]" "''0''"]
      d0 d1 bogus
    by simp
qed

text \<open>
  C10. When the transfer-encoding header is absent and the content-length value is the
  empty string or white space only, the value converts to the number 0, not to
  \<^verbatim>\<open>NaN\<close>, and \<open>hasBody\<close> holds.
\<close>

theorem hasBody_blank_content_length:
  assumes "headers ''transfer-encoding'' = None"
    and "headers ''content-length'' = Some s"
    and "list_all isStrWhiteSpaceChar s"
  shows "hasBody headers \<and> \<not> isNaN (headers ''content-length'')"
proof -
  from assms(3) have "isStringNumericLiteral s"
    by (simp add: isStringNumericLiteral_def trimWhiteSpace_blank)
  with assms(2) show ?thesis
    by (simp add: hasBody_def isNaN_def)
qed

theorem hasBody_blank_content_length_witness:
  "hasBody [''content-length'' \<mapsto> []] \<and>
   hasBody [''content-length'' \<mapsto> [CHR '' '', CHR 0x09, CHR '' '']]"
proof -
  let ?h1 = "[''content-length'' \<mapsto> ([] :: string)]"
  let ?h2 = "[''content-length'' \<mapsto> [CHR '' '', CHR 0x09, CHR '' '']]"
  have w: "list_all isStrWhiteSpaceChar [CHR '' '', CHR 0x09, CHR '' '']" by code_simp
  have "hasBody ?h1 \<and> \<not> isNaN (?h1 ''content-length'')"
    by (rule hasBody_blank_content_length [where s = "[]"]) simp_all
  moreover have "hasBody ?h2 \<and> \<not> isNaN (?h2 ''content-length'')"
    by (rule hasBody_blank_content_length [OF _ _ w]) simp_all
  ultimately show ?thesis by simp
qed

section \<open>Properties of the package model\<close>

lemma indexOf_takeWhile:
  "c \<in> set s \<Longrightarrow> indexOf s c = int (length (takeWhile (\<lambda>x. x \<noteq> c) s))"
  by (induction s) (auto simp: Let_def indexOf_minus1)

lemma slice_prefix: "n \<le> length s \<Longrightarrow> slice s 0 (int n) = take n s"
  by (simp add: slice_def relIndex_def Let_def)

lemma parse_mediaPart:
  "(if indexOf header (CHR '';'') \<noteq> - 1 then trim (slice header 0 (indexOf header (CHR '';'')))
    else trim header) = trim (mediaPart header)"
proof (cases "CHR '';'' \<in> set header")
  case True
  then have "indexOf header (CHR '';'') = int (length (mediaPart header))"
    by (simp add: indexOf_takeWhile mediaPart_def)
  moreover have "length (mediaPart header) \<le> length header"
    by (simp add: mediaPart_def length_takeWhile_le)
  moreover have "take (length (mediaPart header)) header = mediaPart header"
    by (simp add: mediaPart_def takeWhile_eq_take [symmetric])
  ultimately show ?thesis
    using True by (simp add: slice_prefix indexOf_minus1)
next
  case False
  then have "mediaPart header = header"
    by (auto simp: mediaPart_def)
  with False show ?thesis by (simp add: indexOf_minus1)
qed

lemma lowerChar_idem: "lowerChar (lowerChar c) = lowerChar c"
  by (auto simp: lowerChar_def Let_def)

lemma lowerChar_not_upper: "\<not> isUpperCase (lowerChar c)"
  by (auto simp: lowerChar_def isUpperCase_def Let_def)

lemma lowerChar_token: "tokenChar c \<Longrightarrow> tokenChar (lowerChar c)"
  by (auto simp: lowerChar_def tokenChar_def Let_def)

lemma lowerChar_slash: "lowerChar c = CHR ''/'' \<longleftrightarrow> c = CHR ''/''"
proof -
  have "(of_char (lowerChar c) :: nat) = 47 \<longleftrightarrow> (of_char c :: nat) = 47"
    by (auto simp: lowerChar_def Let_def)
  moreover have "(of_char d :: nat) = 47 \<longleftrightarrow> d = CHR ''/''" for d
    using of_char_eq_iff [of d "CHR ''/''", where ?'a = nat] by simp
  ultimately show ?thesis by simp
qed

lemma token_not_white: "tokenChar c \<Longrightarrow> \<not> isStrWhiteSpaceChar c"
  by (auto simp: tokenChar_def isStrWhiteSpaceChar_def Let_def)

lemma token_not_sep: "tokenChar c \<Longrightarrow> c \<noteq> CHR ''/'' \<and> c \<noteq> CHR '';''"
  by (auto simp: tokenChar_def Let_def)

lemma white_not_slash: "\<not> isStrWhiteSpaceChar (CHR ''/'')"
  by (simp add: isStrWhiteSpaceChar_def)

text \<open>TYPE_REGEXP as a decomposition.\<close>

lemma TYPE_REGEXP_iff:
  "TYPE_REGEXP t \<longleftrightarrow> (\<exists>a b. t = a @ CHR ''/'' # b \<and> TOKEN_REGEXP a \<and> TOKEN_REGEXP b)"
proof
  assume "TYPE_REGEXP t"
  then obtain a b where "split (CHR ''/'') t = [a, b]" and "TOKEN_REGEXP a" and "TOKEN_REGEXP b"
    by (cases "split (CHR ''/'') t"; cases "tl (split (CHR ''/'') t)")
       (auto simp: TYPE_REGEXP_def Let_def)
  then show "\<exists>a b. t = a @ CHR ''/'' # b \<and> TOKEN_REGEXP a \<and> TOKEN_REGEXP b"
    by (auto simp: split_two)
next
  assume "\<exists>a b. t = a @ CHR ''/'' # b \<and> TOKEN_REGEXP a \<and> TOKEN_REGEXP b"
  then obtain a b where t: "t = a @ CHR ''/'' # b" and a: "TOKEN_REGEXP a" and b: "TOKEN_REGEXP b"
    by blast
  from a b have "CHR ''/'' \<notin> set a" and "CHR ''/'' \<notin> set b"
    using token_not_sep by (auto simp: TOKEN_REGEXP_def list_all_iff)
  with t have "split (CHR ''/'') t = [a, b]" by (simp add: split_two)
  with a b show "TYPE_REGEXP t" by (simp add: TYPE_REGEXP_def)
qed

lemma TOKEN_REGEXP_lower: "TOKEN_REGEXP a \<Longrightarrow> TOKEN_REGEXP (toLowerCase a)"
  by (auto simp: TOKEN_REGEXP_def toLowerCase_def list_all_iff lowerChar_token)

lemma TYPE_REGEXP_lower: "TYPE_REGEXP t \<Longrightarrow> TYPE_REGEXP (toLowerCase t)"
proof -
  assume "TYPE_REGEXP t"
  then obtain a b where t: "t = a @ CHR ''/'' # b" and a: "TOKEN_REGEXP a" and b: "TOKEN_REGEXP b"
    by (auto simp: TYPE_REGEXP_iff)
  have "lowerChar (CHR ''/'') = CHR ''/''" by (simp add: lowerChar_slash)
  with t have "toLowerCase t = toLowerCase a @ CHR ''/'' # toLowerCase b"
    by (simp add: toLowerCase_def)
  with a b show ?thesis
    unfolding TYPE_REGEXP_iff using TOKEN_REGEXP_lower by blast
qed

lemma TYPE_REGEXP_chars:
  assumes "TYPE_REGEXP t"
  shows "t \<noteq> []" and "CHR '';'' \<notin> set t" and "count_list t (CHR ''/'') = 1"
    and "\<not> isStrWhiteSpaceChar (hd t)" and "\<not> isStrWhiteSpaceChar (last t)"
proof -
  from assms obtain a b where t: "t = a @ CHR ''/'' # b" and a: "TOKEN_REGEXP a"
    and b: "TOKEN_REGEXP b"
    by (auto simp: TYPE_REGEXP_iff)
  from a b have ne: "a \<noteq> []" "b \<noteq> []" and tok: "\<forall>c \<in> set a \<union> set b. tokenChar c"
    by (auto simp: TOKEN_REGEXP_def list_all_iff)
  show "t \<noteq> []" using t by simp
  show "CHR '';'' \<notin> set t" using t tok token_not_sep by auto
  have "CHR ''/'' \<notin> set a" "CHR ''/'' \<notin> set b" using tok token_not_sep by auto
  then show "count_list t (CHR ''/'') = 1" using t by (simp add: count_list_0_iff)
  have "hd t = hd a" using t ne by simp
  then show "\<not> isStrWhiteSpaceChar (hd t)" using tok ne token_not_white by (metis UnI1 hd_in_set)
  have "last t = last b" using t ne by simp
  then show "\<not> isStrWhiteSpaceChar (last t)" using tok ne token_not_white
    by (metis UnI2 last_in_set)
qed

lemma toLowerCase_idem: "toLowerCase (toLowerCase s) = toLowerCase s"
  by (simp add: toLowerCase_def lowerChar_idem)

lemma toLowerCase_no_upper: "c \<in> set (toLowerCase s) \<Longrightarrow> \<not> isUpperCase c"
  by (auto simp: toLowerCase_def lowerChar_not_upper)


lemma format_no_parameters:
  "format (ct\<lparr>parameters := []\<rparr>) =
     (if mediaType ct = [] \<or> \<not> TYPE_REGEXP (mediaType ct) then Inl TypeError
      else Inr (mediaType ct))"
  by (simp add: format_def)

lemma parse_string:
  "parse (JString header) =
     (if header = [] \<or> \<not> TYPE_REGEXP (trim (mediaPart header)) then Inl TypeError
      else if CHR '';'' \<in> set header then
        (case parseParams (sliceFrom header (indexOf header (CHR '';''))) [] of
           Inl err \<Rightarrow> Inl err
         | Inr ps \<Rightarrow> Inr \<lparr>mediaType = toLowerCase (trim (mediaPart header)), parameters = ps\<rparr>)
      else Inr \<lparr>mediaType = toLowerCase (trim (mediaPart header)), parameters = []\<rparr>)"
  unfolding parse_def Let_def parse_mediaPart
  by (simp add: indexOf_minus1)

lemma parse_success:
  assumes "parse v = Inr ct"
  obtains header where "v = JString header" and "TYPE_REGEXP (trim (mediaPart header))"
    and "mediaType ct = toLowerCase (trim (mediaPart header))"
proof (cases v)
  case (JString header)
  with assms have "TYPE_REGEXP (trim (mediaPart header))"
    and "mediaType ct = toLowerCase (trim (mediaPart header))"
    by (auto simp: parse_string split: if_splits sum.splits)
  with JString show ?thesis by (rule that)
qed (use assms in \<open>auto simp: parse_def split: if_splits\<close>)

lemma normalizeType_success:
  assumes "normalizeType (packages types) v = Inr out"
  obtains header where "v = JString header" and "TYPE_REGEXP (trim (mediaPart header))"
    and "out = toLowerCase (trim (mediaPart header))"
proof -
  from assms obtain ct where ct: "parse v = Inr ct" and f: "format (ct\<lparr>parameters := []\<rparr>) = Inr out"
    by (auto simp: normalizeType_def packages_def split: sum.splits)
  from f have "out = mediaType ct"
    by (simp add: format_no_parameters split: if_splits)
  with ct show ?thesis
    by (auto elim!: parse_success intro: that)
qed

lemma trim_TYPE_REGEXP: "TYPE_REGEXP t \<Longrightarrow> trim t = t"
  by (simp add: trim_def trimWhiteSpace_none TYPE_REGEXP_chars)

lemma normalizeType_plain:
  assumes "TYPE_REGEXP t"
  shows "normalizeType (packages types) (JString t) = Inr (toLowerCase t)"
proof -
  from assms have semi: "CHR '';'' \<notin> set t" and ne: "t \<noteq> []"
    by (simp_all add: TYPE_REGEXP_chars)
  from semi have "mediaPart t = t" by (auto simp: mediaPart_def)
  with assms semi ne have "parse (JString t) = Inr \<lparr>mediaType = toLowerCase t, parameters = []\<rparr>"
    by (simp add: parse_string trim_TYPE_REGEXP)
  moreover have "TYPE_REGEXP (toLowerCase t)"
    using assms by (rule TYPE_REGEXP_lower)
  moreover have "toLowerCase t \<noteq> []"
    using ne by (simp add: toLowerCase_def)
  ultimately show ?thesis
    by (simp add: normalizeType_def packages_def format_def)
qed

lemma tryNormalizeType_success:
  assumes "tryNormalizeType (packages types) v = Some out"
  shows "normalizeType (packages types) v = Inr out"
  using assms by (auto simp: tryNormalizeType_def split: if_splits sum.splits)

lemma count_list_dropWhile_other:
  "\<not> P c \<Longrightarrow> count_list (dropWhile P s) c = count_list s c"
  by (induction s) auto

lemma count_list_trim_slash: "count_list (trim s) (CHR ''/'') = count_list s (CHR ''/'')"
  by (simp add: trim_def trimWhiteSpace_def count_list_rev count_list_dropWhile_other
      white_not_slash)

lemma tryNormalizeType_packages:
  assumes "tryNormalizeType (packages types) v = Some out"
  obtains header where "v = JString header" and "count_list (mediaPart header) (CHR ''/'') = 1"
    and "out = toLowerCase (trim (mediaPart header))" and "TYPE_REGEXP out"
proof -
  from assms have "normalizeType (packages types) v = Inr out"
    by (rule tryNormalizeType_success)
  then obtain header where v: "v = JString header" and t: "TYPE_REGEXP (trim (mediaPart header))"
    and out: "out = toLowerCase (trim (mediaPart header))"
    by (rule normalizeType_success)
  from t have "count_list (trim (mediaPart header)) (CHR ''/'') = 1"
    by (rule TYPE_REGEXP_chars)
  then have "count_list (mediaPart header) (CHR ''/'') = 1"
    by (simp add: count_list_trim_slash)
  moreover from t out have "TYPE_REGEXP out" by (simp add: TYPE_REGEXP_lower)
  ultimately show ?thesis using v out by (intro that)
qed

lemma set_sliceFrom: "set (sliceFrom s k) \<subseteq> set s"
  by (simp add: sliceFrom_def set_drop_subset)

lemma upper_not_special: "isUpperCase c \<Longrightarrow> c \<noteq> CHR ''/'' \<and> c \<noteq> CHR ''*''"
  by (auto simp: isUpperCase_def)

lemma mimeMatch_upper:
  assumes "c \<in> set expected" and "isUpperCase c"
    and "\<forall>x \<in> set actual. \<not> isUpperCase x"
  shows "\<not> mimeMatch (Some expected) actual"
proof
  assume m: "mimeMatch (Some expected) actual"
  then have "length (split (CHR ''/'') actual) = 2" and "length (split (CHR ''/'') expected) = 2"
    by (auto simp: mimeMatch_def Let_def split: if_splits)
  then obtain a0 a1 e0 e1 where a: "split (CHR ''/'') actual = [a0, a1]"
    and e: "split (CHR ''/'') expected = [e0, e1]"
    by (auto simp: length_Suc_conv numeral_2_eq_2)
  from a e have actual: "actual = a0 @ CHR ''/'' # a1" and expected: "expected = e0 @ CHR ''/'' # e1"
    by (simp_all add: split_two)
  from assms(3) actual have low: "\<not> isUpperCase x" if "x \<in> set a0 \<union> set a1" for x
    using that by auto
  from m have type: "e0 = ''*'' \<or> e0 = a0"
    and sub: "if take 2 e1 = ''*+''
              then drop 1 e1 = sliceFrom a1 (1 - int (length e1))
              else e1 = ''*'' \<or> e1 = a1"
    unfolding mimeMatch_two_segments [OF e a] by (simp_all split: if_splits)
  from assms(1,2) expected have "c \<in> set e0 \<or> c \<in> set e1"
    using upper_not_special by auto
  then show False
  proof
    assume "c \<in> set e0"
    with type assms(2) low show False using upper_not_special by auto
  next
    assume c: "c \<in> set e1"
    show False
    proof (cases "take 2 e1 = ''*+''")
      case True
      with c assms(2) have "c \<in> set (drop 1 e1)"
        using upper_not_special by (cases e1) auto
      with sub True have "c \<in> set (sliceFrom a1 (1 - int (length e1)))" by simp
      then have "c \<in> set a1" using set_sliceFrom by blast
      with low assms(2) show False by auto
    next
      case False
      with sub c assms(2) low show False using upper_not_special by auto
    qed
  qed
qed

lemma normalize_pattern_slash:
  assumes "CHR ''/'' \<in> set token"
  shows "normalize_pattern D (JString token) =
           (if prefix ''+'' token then Some (''*/*'' @ token) else Some token)"
proof -
  from assms have "token \<noteq> ''urlencoded''" and "token \<noteq> ''multipart''" by auto
  then show ?thesis
    using assms by (simp add: normalize_pattern_def indexOf_minus1 firstIs_prefix)
qed

lemma lookup_JSON:
  "lookup types ''JSON'' =
     (case types ''json'' of None \<Rightarrow> None | Some t \<Rightarrow> if t = [] then None else Some t)"
proof -
  have "drop 1 (toLowerCase (extname (''x.'' @ ''JSON''))) = ''json''" by code_simp
  then show ?thesis by (simp add: lookup_def Let_def)
qed

section \<open>Normalisation of the actual media type is idempotent\<close>

lemma sliceFrom_nat: "n \<le> length s \<Longrightarrow> sliceFrom s (int n) = drop n s"
  by (simp add: sliceFrom_def relIndex_def Let_def)

lemma normalizeType_with_parameters:
  assumes t: "TYPE_REGEXP t" and ps: "parseParams (CHR '';'' # rest) [] = Inr ps"
  shows "normalizeType (packages types) (JString (t @ CHR '';'' # rest)) = Inr (toLowerCase t)"
proof -
  let ?header = "t @ CHR '';'' # rest"
  from t have semi: "CHR '';'' \<notin> set t" and ne: "t \<noteq> []"
    by (simp_all add: TYPE_REGEXP_chars)
  from semi have part: "mediaPart ?header = t"
    by (induction t) (auto simp: mediaPart_def)
  then have "indexOf ?header (CHR '';'') = int (length t)"
    using indexOf_takeWhile [of "CHR '';''" ?header] by (simp add: mediaPart_def)
  then have "sliceFrom ?header (indexOf ?header (CHR '';'')) = CHR '';'' # rest"
    by (simp add: sliceFrom_nat)
  with t ps part have "parse (JString ?header) = Inr \<lparr>mediaType = toLowerCase t, parameters = ps\<rparr>"
    by (simp add: parse_string trim_TYPE_REGEXP)
  moreover have "TYPE_REGEXP (toLowerCase t)"
    using t by (rule TYPE_REGEXP_lower)
  moreover have "toLowerCase t \<noteq> []"
    using ne by (simp add: toLowerCase_def)
  ultimately show ?thesis
    by (simp add: normalizeType_def packages_def format_def)
qed

text \<open>
  C8. With the packages as modelled, \<open>normalizeType\<close> succeeds on every media type of
  two tokens around one \<^verbatim>\<open>/\<close>, in any casing, alone or followed by well-formed
  parameters, and returns it in lower case. Whenever it succeeds, normalising its
  output again succeeds and returns that output unchanged; the output holds no \<^verbatim>\<open>;\<close>,
  so no parameter, is two tokens around one \<^verbatim>\<open>/\<close>, and is in lower case.
\<close>

theorem normalizeType_idempotent:
  "(TYPE_REGEXP t \<longrightarrow> normalizeType (packages types) (JString t) = Inr (toLowerCase t)) \<and>
   (TYPE_REGEXP t \<and> parseParams (CHR '';'' # rest) [] = Inr ps \<longrightarrow>
      normalizeType (packages types) (JString (t @ CHR '';'' # rest)) = Inr (toLowerCase t)) \<and>
   (normalizeType (packages types) raw = Inr out \<longrightarrow>
      normalizeType (packages types) (JString out) = Inr out \<and>
      tryNormalizeType (packages types) (JString out) = Some out \<and>
      CHR '';'' \<notin> set out \<and> TYPE_REGEXP out \<and> toLowerCase out = out)"
proof (intro conjI impI)
  show "normalizeType (packages types) (JString t) = Inr (toLowerCase t)" if "TYPE_REGEXP t"
    using that by (rule normalizeType_plain)
  show "normalizeType (packages types) (JString (t @ CHR '';'' # rest)) = Inr (toLowerCase t)"
    if "TYPE_REGEXP t \<and> parseParams (CHR '';'' # rest) [] = Inr ps"
    using that by (simp add: normalizeType_with_parameters)
next
  assume raw: "normalizeType (packages types) raw = Inr out"
  then obtain header where t: "TYPE_REGEXP (trim (mediaPart header))"
    and out: "out = toLowerCase (trim (mediaPart header))"
    by (rule normalizeType_success)
  from t out show ty: "TYPE_REGEXP out" by (simp add: TYPE_REGEXP_lower)
  from out show low: "toLowerCase out = out" by (simp add: toLowerCase_idem)
  from ty show again: "normalizeType (packages types) (JString out) = Inr out"
    using normalizeType_plain [of out types] low by simp
  from ty have "out \<noteq> []" by (rule TYPE_REGEXP_chars)
  with again show "tryNormalizeType (packages types) (JString out) = Some out"
    by (simp add: tryNormalizeType_def)
  from ty show "CHR '';'' \<notin> set out" by (rule TYPE_REGEXP_chars)
qed

theorem normalizeType_idempotent_witness:
  "normalizeType (packages registry) (JString ''Text/HTML; Charset=UTF-8'') = Inr ''text/html'' \<and>
   normalizeType (packages registry) (JString ''text/html'') = Inr ''text/html'' \<and>
   CHR '';'' \<notin> set ''text/html''"
proof -
  have ty: "TYPE_REGEXP ''Text/HTML''" by code_simp
  have ps: "parseParams (CHR '';'' # '' Charset=UTF-8'') [] = Inr [(''charset'', ''UTF-8'')]"
    by code_simp
  have low: "toLowerCase ''Text/HTML'' = ''text/html''" by code_simp
  note idem = normalizeType_idempotent [of "''Text/HTML''" registry "'' Charset=UTF-8''"
      "[(''charset'', ''UTF-8'')]" "JString ''Text/HTML; Charset=UTF-8''" "''text/html''"]
  from idem ty ps low
  have first: "normalizeType (packages registry) (JString ''Text/HTML; Charset=UTF-8'') =
      Inr ''text/html''"
    by simp
  with idem show ?thesis by simp
qed

section \<open>An invalid actual media type, and an empty pattern list\<close>

text \<open>
  C2, as amended. Whatever the patterns are, \<^verbatim>\<open>is\<close> returns \<^verbatim>\<open>false\<close> when the actual
  argument is \<^verbatim>\<open>undefined\<close>, \<^verbatim>\<open>null\<close>, the empty string, or fails normalization; with
  the packages as modelled this is the case in particular for every value whose media
  type part, the text before its first \<^verbatim>\<open>;\<close>, does not hold exactly one \<^verbatim>\<open>/\<close>
  (\<^verbatim>\<open>bogus\<close> is one). When normalization succeeds and the pattern list is empty or
  absent, \<^verbatim>\<open>is\<close> returns the normalized actual media type, which is the media-type
  part, trimmed and in lower case, without parameters.
\<close>

theorem is_invalid_false_or_normalized:
  "(tryNormalizeType D actual' = None \<or> tryNormalizeType D actual' = Some [] \<longrightarrow>
      typeis_is D actual' rest = Inr (JBool False)) \<and>
   (actual' = JUndefined \<or> actual' = JNull \<or> actual' = JString [] \<longrightarrow>
      typeis_is D actual' rest = Inr (JBool False)) \<and>
   (count_list (mediaPart header) (CHR ''/'') \<noteq> 1 \<longrightarrow>
      tryNormalizeType (packages types) (JString header) = None \<and>
      typeis_is (packages types) (JString header) rest = Inr (JBool False)) \<and>
   (tryNormalizeType D actual' = Some actual \<and> actual \<noteq> [] \<and> flattened rest = [] \<longrightarrow>
      typeis_is D actual' rest = Inr (JString actual)) \<and>
   (tryNormalizeType (packages types) (JString header) = Some actual \<longrightarrow>
      actual = toLowerCase (trim (mediaPart header)) \<and> TYPE_REGEXP actual \<and>
      typeis_is (packages types) (JString header) [] = Inr (JString actual))"
proof (intro conjI impI)
  assume "tryNormalizeType D actual' = None \<or> tryNormalizeType D actual' = Some []"
  then show "typeis_is D actual' rest = Inr (JBool False)"
    by (rule typeis_is_invalid)
next
  assume "actual' = JUndefined \<or> actual' = JNull \<or> actual' = JString []"
  then have "tryNormalizeType D actual' = None"
    by (auto simp: tryNormalizeType_def)
  then show "typeis_is D actual' rest = Inr (JBool False)"
    by (simp add: typeis_is_invalid)
next
  assume bad: "count_list (mediaPart header) (CHR ''/'') \<noteq> 1"
  show none: "tryNormalizeType (packages types) (JString header) = None"
  proof (rule ccontr)
    assume "tryNormalizeType (packages types) (JString header) \<noteq> None"
    then obtain out where "tryNormalizeType (packages types) (JString header) = Some out"
      by auto
    then have "count_list (mediaPart header) (CHR ''/'') = 1"
      by (auto elim!: tryNormalizeType_packages)
    with bad show False by simp
  qed
  then show "typeis_is (packages types) (JString header) rest = Inr (JBool False)"
    by (simp add: typeis_is_invalid)
next
  assume "tryNormalizeType D actual' = Some actual \<and> actual \<noteq> [] \<and> flattened rest = []"
  then show "typeis_is D actual' rest = Inr (JString actual)"
    by (simp add: typeis_is_valid)
next
  assume ok: "tryNormalizeType (packages types) (JString header) = Some actual"
  then show out: "actual = toLowerCase (trim (mediaPart header))"
    by (auto elim!: tryNormalizeType_packages)
  from ok show ty: "TYPE_REGEXP actual"
    by (auto elim!: tryNormalizeType_packages)
  then have "actual \<noteq> []" by (rule TYPE_REGEXP_chars)
  with ok show "typeis_is (packages types) (JString header) [] = Inr (JString actual)"
    by (simp add: typeis_is_valid flattened_def)
qed

theorem is_invalid_false_or_normalized_witness:
  "typeis_is (packages registry) (JString ''bogus'') [JString ''*/*''] = Inr (JBool False) \<and>
   typeis_is (packages registry) JUndefined [JArray [JString ''text/*'']] = Inr (JBool False) \<and>
   typeis_is (packages registry) (JString []) [JArray [JString ''application/json'']] =
     Inr (JBool False) \<and>
   typeis_is (packages registry) (JString ''Text/HTML; charset=utf-8'') [JArray []] =
     Inr (JString ''text/html'') \<and>
   typeis_is (packages registry) (JString ''image/png'') [] = Inr (JString ''image/png'')"
proof -
  let ?D = "packages registry"
  have bogus: "count_list (mediaPart ''bogus'') (CHR ''/'') \<noteq> 1" by code_simp
  have html: "tryNormalizeType ?D (JString ''Text/HTML; charset=utf-8'') = Some ''text/html''"
    by code_simp
  have png: "tryNormalizeType ?D (JString ''image/png'') = Some ''image/png''" by code_simp
  have empty: "flattened [JArray []] = []" by (simp add: flattened_def)
  show ?thesis
    using is_invalid_false_or_normalized [of ?D "JString ''bogus''" "[JString ''*/*'']"
        "''bogus''" registry "''bogus''"]
      is_invalid_false_or_normalized [of ?D JUndefined "[JArray [JString ''text/*'']]"
        "''bogus''" registry "''bogus''"]
      is_invalid_false_or_normalized [of ?D "JString []" "[JArray [JString ''application/json'']]"
        "''bogus''" registry "''bogus''"]
      is_invalid_false_or_normalized [of ?D "JString ''Text/HTML; charset=utf-8''" "[JArray []]"
        "''bogus''" registry "''text/html''"]
      is_invalid_false_or_normalized [of ?D "JString ''image/png''" "[]"
        "''image/png''" registry "''image/png''"]
      bogus html png empty
    by simp
qed

text \<open>
  The claim as stated counts the \<^verbatim>\<open>/\<close> of the whole value. A quoted parameter value may
  hold one: \<^verbatim>\<open>text/html; a="/"\<close> has two \<^verbatim>\<open>/\<close>, and normalization succeeds on it.
\<close>

theorem is_two_slashes_counterexample:
  "count_list (''text/html; a='' @ [CHR 0x22, CHR ''/'', CHR 0x22]) (CHR ''/'') = 2 \<and>
   typeis_is (packages registry) (JString (''text/html; a='' @ [CHR 0x22, CHR ''/'', CHR 0x22]))
     [JString ''*/*''] = Inr (JString ''text/html'')"
  by code_simp

section \<open>Patterns are compared case-sensitively\<close>

text \<open>
  C9, as amended. A pattern token that contains \<^verbatim>\<open>/\<close> and does not start with \<^verbatim>\<open>+\<close>
  is passed through \<^verbatim>\<open>normalize\<close> unchanged. With the packages as modelled, the
  normalized actual media type holds no upper-case ASCII letter, so for every token
  that contains \<^verbatim>\<open>/\<close> and an upper-case ASCII letter, and every actual argument,
  \<^verbatim>\<open>is\<close> returns \<^verbatim>\<open>false\<close> on the list holding that token alone. The extension
  \<^verbatim>\<open>JSON\<close> still matches \<^verbatim>\<open>application/json\<close> when the registry knows \<^verbatim>\<open>json\<close>,
  since the lookup lower-cases the extension.
\<close>

theorem uppercase_pattern_never_matches:
  "(CHR ''/'' \<in> set token \<and> \<not> prefix ''+'' token \<longrightarrow>
      normalize_pattern D (JString token) = Some token) \<and>
   (tryNormalizeType (packages types) actual' = Some actual \<longrightarrow>
      (\<forall>c \<in> set actual. \<not> isUpperCase c)) \<and>
   (CHR ''/'' \<in> set token \<and> (\<exists>c \<in> set token. isUpperCase c) \<longrightarrow>
      typeis_is (packages types) actual' [JArray [JString token]] = Inr (JBool False)) \<and>
   (types ''json'' = Some ''application/json'' \<longrightarrow>
      typeis_is (packages types) (JString ''application/json'') [JArray [JString ''JSON'']] =
        Inr (JString ''JSON''))"
proof (intro conjI impI)
  assume "CHR ''/'' \<in> set token \<and> \<not> prefix ''+'' token"
  then show "normalize_pattern D (JString token) = Some token"
    by (simp add: normalize_pattern_slash)
next
  show lower: "\<forall>c \<in> set act. \<not> isUpperCase c"
    if "tryNormalizeType (packages types) actual' = Some act" for act
    using that by (auto elim!: tryNormalizeType_packages dest: toLowerCase_no_upper)
  assume tok: "CHR ''/'' \<in> set token \<and> (\<exists>c \<in> set token. isUpperCase c)"
  then obtain c where c: "c \<in> set token" "isUpperCase c" by blast
  show "typeis_is (packages types) actual' [JArray [JString token]] = Inr (JBool False)"
  proof (cases "tryNormalizeType (packages types) actual'")
    case None
    then show ?thesis by (simp add: typeis_is_invalid)
  next
    case (Some act)
    then have low: "\<forall>x \<in> set act. \<not> isUpperCase x" by (rule lower)
    from Some have "act \<noteq> []"
      by (auto elim!: tryNormalizeType_packages dest: TYPE_REGEXP_chars(1))
    obtain e where e: "normalize_pattern (packages types) (JString token) = Some e"
      and "c \<in> set e"
      using tok c by (cases "prefix ''+'' token") (simp_all add: normalize_pattern_slash)
    then have "\<not> mimeMatch (normalize_pattern (packages types) (JString token)) act"
      using c(2) low by (simp add: mimeMatch_upper)
    with Some \<open>act \<noteq> []\<close> show ?thesis
      by (simp add: typeis_is_valid flattened_array)
  qed
next
  assume json: "types ''json'' = Some ''application/json''"
  have act: "tryNormalizeType (packages types) (JString ''application/json'') = Some ''application/json''"
  proof -
    have "TYPE_REGEXP ''application/json''" by code_simp
    then have "normalizeType (packages types) (JString ''application/json'') =
                 Inr (toLowerCase ''application/json'')"
      by (rule normalizeType_plain)
    moreover have "toLowerCase ''application/json'' = ''application/json''" by code_simp
    ultimately show ?thesis by (simp add: tryNormalizeType_def)
  qed
  have "normalize_pattern (packages types) (JString ''JSON'') = Some ''application/json''"
    using json by (simp add: normalize_pattern_def packages_def lookup_JSON firstIs_def)
  moreover have "mimeMatch (Some ''application/json'') ''application/json''" by code_simp
  ultimately have "matchFirst (packages types) ''application/json'' [JString ''JSON''] =
                     Inr (JString ''JSON'')"
    by (simp add: matched_string firstIs_def)
  with act show "typeis_is (packages types) (JString ''application/json'')
                   [JArray [JString ''JSON'']] = Inr (JString ''JSON'')"
    by (simp add: typeis_is_valid flattened_array)
qed

theorem uppercase_pattern_never_matches_witness:
  "normalize_pattern (packages registry) (JString ''text/HTML'') = Some ''text/HTML'' \<and>
   typeis_is (packages registry) (JString ''text/HTML'') [JArray [JString ''text/HTML'']] =
     Inr (JBool False) \<and>
   typeis_is (packages registry) (JString ''application/json'') [JArray [JString ''JSON'']] =
     Inr (JString ''JSON'')"
proof -
  have slash: "CHR ''/'' \<in> set ''text/HTML'' \<and> \<not> prefix ''+'' ''text/HTML''" by simp
  have "isUpperCase (CHR ''H'')" by (simp add: isUpperCase_def)
  then have upper: "CHR ''/'' \<in> set ''text/HTML'' \<and> (\<exists>c \<in> set ''text/HTML''. isUpperCase c)"
    by simp
  have json: "registry ''json'' = Some ''application/json''" by (simp add: registry_def)
  note never = uppercase_pattern_never_matches [of "''text/HTML''" "packages registry" registry
        "JString ''text/HTML''" "''text/html''"]
  from never slash have "normalize_pattern (packages registry) (JString ''text/HTML'') =
      Some ''text/HTML''"
    by blast
  moreover from never upper have "typeis_is (packages registry) (JString ''text/HTML'')
      [JArray [JString ''text/HTML'']] = Inr (JBool False)"
    by blast
  moreover from never json have "typeis_is (packages registry) (JString ''application/json'')
      [JArray [JString ''JSON'']] = Inr (JString ''JSON'')"
    by blast
  ultimately show ?thesis by simp
qed

text \<open>
  The claim as stated passes every token with a \<^verbatim>\<open>/\<close> through unchanged. The check
  for a leading \<^verbatim>\<open>+\<close> comes first in \<^verbatim>\<open>normalize\<close>: \<^verbatim>\<open>+a/b\<close> becomes \<^verbatim>\<open>*/*+a/b\<close>.
\<close>

theorem plus_slash_pattern_counterexample:
  "CHR ''/'' \<in> set ''+a/b'' \<and>
   normalize_pattern (packages registry) (JString ''+a/b'') = Some ''*/*+a/b'' \<and>
   normalize_pattern (packages registry) (JString ''+a/b'') \<noteq> Some ''+a/b''"
  by code_simp

end
